theory Spec2Isabelle
  imports Complex_Main
begin

section \<open>Python values used by the chart service\<close>

text \<open>
  The service is one Flask module, \<^verbatim>\<open>app.py\<close>. Its handlers are embedded here as
  total functions; every exception the Python can raise is a value of \<open>py_exn\<close>, and a
  handler's \<^verbatim>\<open>try/except\<close> is a case distinction on it.

  Strings are byte strings (\<open>char list\<close>): the model covers ASCII text. A Python
  \<^verbatim>\<open>float\<close> is its exact value or one of the three special values; rounding to
  binary64 is not part of the model, so a decimal literal denotes its exact value.

  What pandas, python-pptx and the clock return is input: a request carries the table
  its data file is read as and the presentation its template opens as, and the
  environment carries the time and the bytes a presentation is saved as.
\<close>

datatype py_exn = ValueError | TypeError | IndexError | KeyError | LibraryError

datatype pyfloat = Fin rat | PInf | NInf | NaN

text \<open>
  A cell of a pandas column, as iteration over the column yields it: text, a float (an
  empty cell of the file is loaded as the float \<open>NaN\<close>), an integer, a boolean,
  \<^verbatim>\<open>None\<close>, or some other object (a timestamp, say) that \<^verbatim>\<open>float()\<close> rejects.
\<close>

datatype cell = CStr string | CFloat pyfloat | CInt int | CBool bool | CNone | CObj

subsection \<open>Characters and \<^verbatim>\<open>str\<close> methods\<close>




definition lower_char :: "char \<Rightarrow> char" where
  "lower_char c =
     (case map_of (zip ''ABCDEFGHIJKLMNOPQRSTUVWXYZ'' ''abcdefghijklmnopqrstuvwxyz'') c of
        Some l \<Rightarrow> l
      | None \<Rightarrow> c)"

text \<open>\<^verbatim>\<open>s.lower()\<close>\<close>

definition lower :: "string \<Rightarrow> string" where
  "lower s = map lower_char s"


text \<open>\<^verbatim>\<open>sub in s\<close> on strings: \<open>sub\<close> occurs in \<open>s\<close> as a contiguous block.\<close>

fun contains :: "string \<Rightarrow> string \<Rightarrow> bool" where
  "contains sub [] = (sub = [])"
| "contains sub (c # cs) = (take (length sub) (c # cs) = sub \<or> contains sub cs)"


subsection \<open>Numeric literals: \<^verbatim>\<open>int(str)\<close> and \<^verbatim>\<open>float(str)\<close>\<close>










subsection \<open>\<^verbatim>\<open>float(x)\<close>\<close>


section \<open>Responses\<close>

text \<open>
  A handler returns either \<^verbatim>\<open>jsonify(fields), status\<close> or \<^verbatim>\<open>send_file(...)\<close>; when an
  exception leaves a handler, Flask answers with its own error page, \<open>Unhandled\<close>. The
  value \<open>JExn e\<close> stands for \<^verbatim>\<open>str(e)\<close>, the message of an exception, whose
  wording is the libraries' own.
\<close>

datatype json = JStr string | JNum int | JExn py_exn

datatype response =
    Json nat "(string \<times> json) list"
  | SendFile string string string
  | Unhandled py_exn



section \<open>Series extraction\<close>








text \<open>
  \<^verbatim>\<open>ChartData\<close> after lines 117 and 118: the categories and the named series.
\<close>

record chart_data =
  categories :: "cell list"
  series :: "(string \<times> pyfloat list) list"







section \<open>Presentations\<close>

text \<open>
  The part of python-pptx the handler uses. A layout has a name; a slide remembers the
  layout it was made from and holds shapes, of which the model keeps the charts, in
  order. Of \<^verbatim>\<open>XL_CHART_TYPE\<close> only the members the service names are listed.
\<close>

datatype xl_chart_type = PIE | COLUMN_CLUSTERED | LINE | XY_SCATTER | AREA

datatype xl_legend_position = BOTTOM | CORNER | CUSTOM | LEFT | RIGHT | TOP

record chart =
  chart_type :: xl_chart_type
  frame :: "int \<times> int \<times> int \<times> int"
  source :: chart_data
  has_legend :: bool
  legend_position :: "xl_legend_position option"
  has_data_labels :: bool
  number_format :: "string option"

record layout =
  layout_name :: string

record slide =
  slide_layout :: layout
  charts :: "chart list"

record presentation =
  slides :: "slide list"
  slide_layouts :: "layout list"

text \<open>
  \<^verbatim>\<open>Presentation()\<close> with no template: python-pptx's default deck, which has no slide
  and these eleven layouts.
\<close>

definition default_presentation :: presentation where
  "default_presentation =
     \<lparr>slides = [],
      slide_layouts = map (\<lambda>n. \<lparr>layout_name = n\<rparr>)
        [''Title Slide'', ''Title and Content'', ''Section Header'', ''Two Content'',
         ''Comparison'', ''Title Only'', ''Blank'', ''Content with Caption'',
         ''Picture with Caption'', ''Title and Vertical Text'', ''Vertical Title and Text'']\<rparr>"


text \<open>\<^verbatim>\<open>prs.slides.add_slide(layout)\<close>: a new last slide, with no chart on it.\<close>

definition new_slide :: "layout \<Rightarrow> slide" where
  "new_slide l = \<lparr>slide_layout = l, charts = []\<rparr>"

definition add_slide :: "presentation \<Rightarrow> layout \<Rightarrow> presentation" where
  "add_slide prs l = prs\<lparr>slides := slides prs @ [new_slide l]\<rparr>"

text \<open>
  Lines 82 to 86, the choice of the layout of a padding slide:
  \<^verbatim>\<open>
  layout_idx = 5
  for idx, layout in enumerate(prs.slide_layouts):
      if layout.name and ('blank' in layout.name.lower() or 'title' in layout.name.lower()):
          layout_idx = idx
          break
  \<close>
  \<open>scan_layouts idx ls layout_idx\<close> is the loop from index \<open>idx\<close> on, over the layouts
  \<open>ls\<close> still to visit.
\<close>

definition layout_matches :: "layout \<Rightarrow> bool" where
  "layout_matches l =
     (layout_name l \<noteq> [] \<and>
      (contains ''blank'' (lower (layout_name l)) \<or> contains ''title'' (lower (layout_name l))))"

fun scan_layouts :: "nat \<Rightarrow> layout list \<Rightarrow> nat \<Rightarrow> nat" where
  "scan_layouts idx [] layout_idx = layout_idx"
| "scan_layouts idx (l # ls) layout_idx =
     (if layout_matches l then idx else scan_layouts (Suc idx) ls layout_idx)"

definition select_layout :: "layout list \<Rightarrow> nat" where
  "select_layout layouts = scan_layouts 0 layouts 5"

text \<open>
  Lines 80 to 87: slides are appended while there are fewer than \<open>slide_position\<close>.
  \<^verbatim>\<open>prs.slide_layouts[layout_idx]\<close> raises \<^verbatim>\<open>IndexError\<close> when the deck has no layout
  at that index.
\<close>

function ensure_slides :: "presentation \<Rightarrow> int \<Rightarrow> py_exn + presentation" where
  "ensure_slides prs slide_position =
     (if int (length (slides prs)) < slide_position then
        (if select_layout (slide_layouts prs) < length (slide_layouts prs)
         then ensure_slides
                (add_slide prs (slide_layouts prs ! select_layout (slide_layouts prs)))
                slide_position
         else Inl IndexError)
      else Inr prs)"
  by pat_completeness auto
termination
  by (relation "measure (\<lambda>(prs, slide_position). nat (slide_position - int (length (slides prs))))")
     (auto simp: add_slide_def)

declare ensure_slides.simps [simp del]

subsection \<open>The chart\<close>










section \<open>The registry of generated files\<close>

text \<open>
  An \<^verbatim>\<open>io.BytesIO\<close>: its bytes and the stream position. \<^verbatim>\<open>seek\<close> moves the position;
  reading to the end returns the bytes from the position on and leaves the position at
  the end.
\<close>

record bytesio =
  payload :: string
  pos :: nat

definition seek :: "bytesio \<Rightarrow> nat \<Rightarrow> bytesio" where
  "seek b n = b\<lparr>pos := n\<rparr>"

definition read_to_end :: "bytesio \<Rightarrow> string \<times> bytesio" where
  "read_to_end b = (drop (pos b) (payload b), b\<lparr>pos := max (pos b) (length (payload b))\<rparr>)"

text \<open>
  An entry of \<^verbatim>\<open>GENERATED_FILES\<close>. A \<^verbatim>\<open>datetime\<close> is a number of microseconds, and
  \<^verbatim>\<open>(now - created).total_seconds()\<close> is their difference in seconds, an exact
  rational here; at the resolution of a microsecond its comparison with 3600 is the
  one the float gives.
\<close>

record artifact =
  buffer :: bytesio
  filename :: string
  created :: int
  content_type :: string

definition total_seconds :: "int \<Rightarrow> rat" where
  "total_seconds delta = of_int delta / 1000000"

text \<open>Line 193: the variable \<^verbatim>\<open>age\<close> of an entry at the time \<open>now\<close>.\<close>

definition age_of :: "int \<Rightarrow> artifact \<Rightarrow> rat" where
  "age_of now file_data = total_seconds (now - created file_data)"

text \<open>
  The dictionary \<^verbatim>\<open>GENERATED_FILES\<close> in insertion order. \<^verbatim>\<open>d[k] = v\<close> replaces the
  value of a key in place or appends a new key; \<^verbatim>\<open>del d[k]\<close> removes the key.
\<close>

type_synonym registry = "(string \<times> artifact) list"

fun dict_set :: "('k \<times> 'v) list \<Rightarrow> 'k \<Rightarrow> 'v \<Rightarrow> ('k \<times> 'v) list" where
  "dict_set [] k v = [(k, v)]"
| "dict_set ((k', v') # d) k v = (if k' = k then (k, v) # d else (k', v') # dict_set d k v)"

definition dict_del :: "('k \<times> 'v) list \<Rightarrow> 'k \<Rightarrow> ('k \<times> 'v) list" where
  "dict_del d k = filter (\<lambda>kv. fst kv \<noteq> k) d"

definition dict_keys :: "('k \<times> 'v) list \<Rightarrow> 'k list" where
  "dict_keys d = map fst d"

subsection \<open>\<^verbatim>\<open>download_chart\<close>\<close>

definition file_not_found :: response where
  "file_not_found = Json 404 [(''error'', JStr ''File not found'')]"

text \<open>
  Lines 171 to 183. The buffer of the entry is rewound and then read by
  \<^verbatim>\<open>send_file\<close>, which is taken to read it to the end and to leave it open; the
  entry stays in the dictionary.
\<close>

definition download_chart :: "string \<Rightarrow> registry \<Rightarrow> response \<times> registry" where
  "download_chart file_id files =
     (case map_of files file_id of
        None \<Rightarrow> (file_not_found, files)
      | Some file_data \<Rightarrow>
          (case read_to_end (seek (buffer file_data) 0) of
             (sent, buf) \<Rightarrow>
               (SendFile sent (content_type file_data) (filename file_data),
                dict_set files file_id (file_data\<lparr>buffer := buf\<rparr>))))"


subsection \<open>\<^verbatim>\<open>cleanup\<close>\<close>

text \<open>\<^verbatim>\<open>str(n)\<close> for a natural number, as the f-string of the message formats it.\<close>

fun str_nat :: "nat \<Rightarrow> string" where
  "str_nat n =
     (if n < 10 then [''0123456789'' ! n]
      else str_nat (n div 10) @ [''0123456789'' ! (n mod 10)])"

text \<open>
  Lines 191 to 198: the loop over a copy of the keys. The result is the exception that
  stopped the loop, if any, the dictionary and the counter \<open>removed\<close>.
\<close>

fun sweep_loop ::
  "string list \<Rightarrow> int \<Rightarrow> registry \<Rightarrow> nat \<Rightarrow> py_exn option \<times> registry \<times> nat" where
  "sweep_loop [] now files removed = (None, files, removed)"
| "sweep_loop (file_id # rest) now files removed =
     (case map_of files file_id of
        None \<Rightarrow> (Some KeyError, files, removed)
      | Some file_data \<Rightarrow>
          if age_of now file_data > 3600
          then sweep_loop rest now (dict_del files file_id) (removed + 1)
          else sweep_loop rest now files removed)"

text \<open>
  Lines 187 to 203; \<open>now\<close> is the reading of the clock. The handler has no
  \<^verbatim>\<open>try\<close>: an exception would leave it.
\<close>

definition cleanup :: "int \<Rightarrow> registry \<Rightarrow> response \<times> registry" where
  "cleanup now files =
     (case sweep_loop (dict_keys files) now files 0 of
        (Some e, files', removed) \<Rightarrow> (Unhandled e, files')
      | (None, files', removed) \<Rightarrow>
          (Json 200
             [(''message'', JStr (''Cleanup complete. Removed '' @ str_nat removed @ '' old files.'')),
              (''remaining'', JNum (int (length files')))],
           files'))"

section \<open>\<^verbatim>\<open>generate_chart\<close>\<close>











section \<open>Example inputs\<close>



definition custom_template :: presentation where
  "custom_template = \<lparr>slides = [], slide_layouts = [\<lparr>layout_name = ''Custom''\<rparr>]\<rparr>"








definition example_artifact :: "int \<Rightarrow> artifact" where
  "example_artifact c =
     \<lparr>buffer = \<lparr>payload = ''PK'', pos = 0\<rparr>, filename = ''chart_x.pptx'', created = c,
      content_type = ''application/vnd.openxmlformats-officedocument.presentationml.presentation''\<rparr>"

definition example_files :: registry where
  "example_files =
     [(''old'', example_artifact 0), (''edge'', example_artifact 1),
      (''new'', example_artifact 3000000000)]"

section \<open>Properties of series extraction\<close>









section \<open>Properties of the composition\<close>

lemma scan_layouts_none:
  "list_all (\<lambda>l. \<not> layout_matches l) ls \<Longrightarrow> scan_layouts idx ls d = d"
  by (induction ls arbitrary: idx) simp_all

lemma scan_layouts_first:
  "i < length ls \<Longrightarrow> layout_matches (ls ! i) \<Longrightarrow> list_all (\<lambda>l. \<not> layout_matches l) (take i ls)
   \<Longrightarrow> scan_layouts idx ls d = idx + i"
proof (induction ls arbitrary: idx i)
  case Nil
  then show ?case by simp
next
  case (Cons l ls)
  show ?case
  proof (cases i)
    case 0
    with Cons.prems show ?thesis by simp
  next
    case (Suc j)
    with Cons.prems have "j < length ls" "layout_matches (ls ! j)"
      "list_all (\<lambda>l. \<not> layout_matches l) (take j ls)" "\<not> layout_matches l"
      by simp_all
    with Cons.IH[of j "Suc idx"] Suc show ?thesis by simp
  qed
qed

lemma contains_blocks: "contains sub s \<longleftrightarrow> (\<exists>pre post. s = pre @ sub @ post)"
proof (induction s)
  case Nil
  then show ?case by auto
next
  case (Cons c cs)
  note IH = Cons.IH
  have pfx: "take (length sub) (c # cs) = sub \<longleftrightarrow> (\<exists>post. c # cs = sub @ post)"
    by (metis append_eq_conv_conj append_take_drop_id)
  show ?case
  proof
    assume "contains sub (c # cs)"
    then consider "take (length sub) (c # cs) = sub" | "contains sub cs" by auto
    then show "\<exists>pre post. c # cs = pre @ sub @ post"
    proof cases
      case 1
      with pfx obtain post where "c # cs = [] @ sub @ post" by auto
      then show ?thesis by blast
    next
      case 2
      with IH obtain pre post where "cs = pre @ sub @ post" by blast
      then have "c # cs = (c # pre) @ sub @ post" by simp
      then show ?thesis by blast
    qed
  next
    assume "\<exists>pre post. c # cs = pre @ sub @ post"
    then obtain pre post where eq: "c # cs = pre @ sub @ post" by blast
    show "contains sub (c # cs)"
    proof (cases pre)
      case Nil
      with eq have "\<exists>post. c # cs = sub @ post" by auto
      with pfx have "take (length sub) (c # cs) = sub" by blast
      then show ?thesis by simp
    next
      case (Cons p ps)
      with eq have "cs = ps @ sub @ post" by simp
      with IH have "contains sub cs" by blast
      then show ?thesis by simp
    qed
  qed
qed

lemma contains_lower:
  "contains sub (lower s) \<longleftrightarrow> (\<exists>pre mid post. s = pre @ mid @ post \<and> lower mid = sub)"
proof
  assume "contains sub (lower s)"
  then obtain a b where ab: "map lower_char s = a @ sub @ b"
    by (auto simp: contains_blocks lower_def)
  let ?pre = "take (length a) s"
  let ?mid = "take (length sub) (drop (length a) s)"
  let ?post = "drop (length sub) (drop (length a) s)"
  have s: "s = ?pre @ ?mid @ ?post" by (simp only: append_take_drop_id)
  from ab have "drop (length a) (map lower_char s) = sub @ b" by (metis append_eq_conv_conj)
  then have "take (length sub) (drop (length a) (map lower_char s)) = sub" by simp
  then have "lower ?mid = sub" by (simp add: lower_def take_map drop_map)
  with s show "\<exists>pre mid post. s = pre @ mid @ post \<and> lower mid = sub" by blast
next
  assume "\<exists>pre mid post. s = pre @ mid @ post \<and> lower mid = sub"
  then obtain pre mid post where "s = pre @ mid @ post" "lower mid = sub" by blast
  then have "lower s = lower pre @ sub @ lower post" by (auto simp: lower_def)
  then show "contains sub (lower s)" by (auto simp: contains_blocks)
qed

lemma ensure_slides_enough:
  "slide_position \<le> int (length (slides prs)) \<Longrightarrow> ensure_slides prs slide_position = Inr prs"
  by (simp add: ensure_slides.simps)

lemma ensure_slides_no_layout:
  "int (length (slides prs)) < slide_position
   \<Longrightarrow> \<not> select_layout (slide_layouts prs) < length (slide_layouts prs)
   \<Longrightarrow> ensure_slides prs slide_position = Inl IndexError"
  by (simp add: ensure_slides.simps)

lemma ensure_slides_padded:
  "select_layout (slide_layouts prs) < length (slide_layouts prs)
   \<Longrightarrow> ensure_slides prs slide_position =
       Inr (prs\<lparr>slides := slides prs @
              replicate (nat (slide_position - int (length (slides prs))))
                (new_slide (slide_layouts prs ! select_layout (slide_layouts prs)))\<rparr>)"
proof (induction prs slide_position rule: ensure_slides.induct)
  case (1 prs slide_position)
  let ?l = "slide_layouts prs ! select_layout (slide_layouts prs)"
  show ?case
  proof (cases "int (length (slides prs)) < slide_position")
    case False
    then show ?thesis by (simp add: ensure_slides.simps)
  next
    case True
    have layouts: "slide_layouts (add_slide prs ?l) = slide_layouts prs"
      by (simp add: add_slide_def)
    have "ensure_slides (add_slide prs ?l) slide_position =
        Inr (add_slide prs ?l\<lparr>slides := slides (add_slide prs ?l) @
          replicate (nat (slide_position - int (length (slides (add_slide prs ?l))))) (new_slide ?l)\<rparr>)"
      using "1.IH"[OF True "1.prems"] "1.prems" by (simp add: layouts)
    moreover from True have "nat (slide_position - int (length (slides prs)))
        = Suc (nat (slide_position - int (length (slides (add_slide prs ?l)))))"
      by (simp add: add_slide_def nat_diff_distrib)
    ultimately show ?thesis
      using True "1.prems" by (simp add: ensure_slides.simps[of prs] add_slide_def)
  qed
qed

lemma ensure_slides_result:
  assumes "ensure_slides prs slide_position = Inr prs'"
  shows "prs' = prs\<lparr>slides := slides prs @
              replicate (nat (slide_position - int (length (slides prs))))
                (new_slide (slide_layouts prs ! select_layout (slide_layouts prs)))\<rparr>"
proof (cases "int (length (slides prs)) < slide_position")
  case False
  with assms show ?thesis by (simp add: ensure_slides_enough)
next
  case True
  show ?thesis
  proof (cases "select_layout (slide_layouts prs) < length (slide_layouts prs)")
    case True
    from ensure_slides_padded[OF this, of slide_position] assms show ?thesis by simp
  next
    case False
    with True assms show ?thesis by (simp add: ensure_slides_no_layout)
  qed
qed



lemma matches_default: "select_layout (slide_layouts default_presentation) = 0"
  by (simp add: select_layout_def default_presentation_def layout_matches_def lower_def lower_char_def)


text \<open>
  C4. For every list of layouts, \<open>select_layout\<close> is the index of the first layout
  whose name contains \<^verbatim>\<open>blank\<close> or \<^verbatim>\<open>title\<close> in any mix of cases (some block of
  the name lowers to one of the two words), and 5 when no name does. Every slide that
  the padding loop appends is a new slide of the layout at that index, the layouts are
  left as they are, and when the loop returned after appending, that index was one of
  the deck's.
\<close>

theorem padding_layout_choice:
  "(\<forall>i. i < length ls \<and> layout_matches (ls ! i) \<and> list_all (\<lambda>l. \<not> layout_matches l) (take i ls)
        \<longrightarrow> select_layout ls = i)
   \<and> (list_all (\<lambda>l. \<not> layout_matches l) ls \<longrightarrow> select_layout ls = 5)
   \<and> (layout_matches l \<longleftrightarrow>
        (\<exists>pre mid post. layout_name l = pre @ mid @ post
            \<and> (lower mid = ''blank'' \<or> lower mid = ''title'')))
   \<and> (ensure_slides prs p = Inr prs' \<longrightarrow>
         slide_layouts prs' = slide_layouts prs
       \<and> slides prs' = slides prs @ replicate (nat (p - int (length (slides prs))))
            (new_slide (slide_layouts prs ! select_layout (slide_layouts prs)))
       \<and> (int (length (slides prs)) < p \<longrightarrow>
            select_layout (slide_layouts prs) < length (slide_layouts prs)))"
proof -
  have first: "\<forall>i. i < length ls \<and> layout_matches (ls ! i)
        \<and> list_all (\<lambda>l. \<not> layout_matches l) (take i ls) \<longrightarrow> select_layout ls = i"
    using scan_layouts_first[of _ ls 0 5] by (simp add: select_layout_def)
  have none: "list_all (\<lambda>l. \<not> layout_matches l) ls \<longrightarrow> select_layout ls = 5"
    by (simp add: select_layout_def scan_layouts_none)
  have name: "layout_matches l \<longleftrightarrow>
        (\<exists>pre mid post. layout_name l = pre @ mid @ post
            \<and> (lower mid = ''blank'' \<or> lower mid = ''title''))"
  proof -
    have "contains ''blank'' (lower (layout_name l)) \<or> contains ''title'' (lower (layout_name l))
        \<Longrightarrow> layout_name l \<noteq> []"
      by (auto simp: lower_def)
    then have "layout_matches l \<longleftrightarrow>
        contains ''blank'' (lower (layout_name l)) \<or> contains ''title'' (lower (layout_name l))"
      by (auto simp: layout_matches_def)
    then show ?thesis by (simp only: contains_lower) blast
  qed
  have pad: "ensure_slides prs p = Inr prs' \<longrightarrow>
         slide_layouts prs' = slide_layouts prs
       \<and> slides prs' = slides prs @ replicate (nat (p - int (length (slides prs))))
            (new_slide (slide_layouts prs ! select_layout (slide_layouts prs)))
       \<and> (int (length (slides prs)) < p \<longrightarrow>
            select_layout (slide_layouts prs) < length (slide_layouts prs))"
  proof
    assume ok: "ensure_slides prs p = Inr prs'"
    from ensure_slides_result[OF ok] have "slide_layouts prs' = slide_layouts prs"
      "slides prs' = slides prs @ replicate (nat (p - int (length (slides prs))))
            (new_slide (slide_layouts prs ! select_layout (slide_layouts prs)))"
      by simp_all
    moreover from ok have "int (length (slides prs)) < p \<longrightarrow>
            select_layout (slide_layouts prs) < length (slide_layouts prs)"
      using ensure_slides_no_layout[of prs p] by auto
    ultimately show "slide_layouts prs' = slide_layouts prs
       \<and> slides prs' = slides prs @ replicate (nat (p - int (length (slides prs))))
            (new_slide (slide_layouts prs ! select_layout (slide_layouts prs)))
       \<and> (int (length (slides prs)) < p \<longrightarrow>
            select_layout (slide_layouts prs) < length (slide_layouts prs))"
      by simp
  qed
  from first none name pad show ?thesis by blast
qed

theorem padding_layout_choice_witness:
  "(0 < length (slide_layouts default_presentation)
      \<and> layout_matches (slide_layouts default_presentation ! 0)
      \<and> list_all (\<lambda>l. \<not> layout_matches l) (take 0 (slide_layouts default_presentation))
      \<and> select_layout (slide_layouts default_presentation) = 0)
   \<and> (list_all (\<lambda>l. \<not> layout_matches l) (slide_layouts custom_template)
      \<and> select_layout (slide_layouts custom_template) = 5)
   \<and> (ensure_slides default_presentation 2 =
         Inr (default_presentation\<lparr>slides := replicate 2 (new_slide \<lparr>layout_name = ''Title Slide''\<rparr>)\<rparr>)
      \<and> slides (default_presentation\<lparr>slides := replicate 2 (new_slide \<lparr>layout_name = ''Title Slide''\<rparr>)\<rparr>)
          = [\<lparr>slide_layout = \<lparr>layout_name = ''Title Slide''\<rparr>, charts = []\<rparr>,
             \<lparr>slide_layout = \<lparr>layout_name = ''Title Slide''\<rparr>, charts = []\<rparr>])"
proof -
  let ?ls = "slide_layouts default_presentation"
  let ?p2 = "default_presentation\<lparr>slides := replicate 2 (new_slide \<lparr>layout_name = ''Title Slide''\<rparr>)\<rparr>"
  have a: "0 < length ?ls" "layout_matches (?ls ! 0)"
    "list_all (\<lambda>l. \<not> layout_matches l) (take 0 ?ls)"
    by (simp_all add: default_presentation_def layout_matches_def lower_def lower_char_def)
  have b: "list_all (\<lambda>l. \<not> layout_matches l) (slide_layouts custom_template)"
    by (simp add: custom_template_def layout_matches_def lower_def lower_char_def)
  have sel: "select_layout ?ls < length ?ls"
    by (simp add: matches_default) (simp add: default_presentation_def)
  have l0: "?ls ! 0 = \<lparr>layout_name = ''Title Slide''\<rparr>"
    by (simp add: default_presentation_def)
  have k0: "slides default_presentation = []"
    by (simp add: default_presentation_def)
  have c: "ensure_slides default_presentation 2 = Inr ?p2"
    using ensure_slides_padded[OF sel, of 2] by (simp add: matches_default l0 k0)
  from a padding_layout_choice[of ?ls _ default_presentation 2 ?p2]
  have "select_layout ?ls = 0" by blast
  moreover from b padding_layout_choice[of "slide_layouts custom_template"]
  have "select_layout (slide_layouts custom_template) = 5" by blast
  moreover from c padding_layout_choice[of ?ls _ default_presentation 2 ?p2]
  have "slides ?p2 = slides default_presentation @ replicate (nat (2 - int (length (slides default_presentation))))
            (new_slide (?ls ! select_layout ?ls))" by blast
  then have "slides ?p2 = [\<lparr>slide_layout = \<lparr>layout_name = ''Title Slide''\<rparr>, charts = []\<rparr>,
             \<lparr>slide_layout = \<lparr>layout_name = ''Title Slide''\<rparr>, charts = []\<rparr>]"
    by (simp add: matches_default l0 k0 new_slide_def numeral_2_eq_2)
  ultimately show ?thesis using a b c by simp
qed





section \<open>Properties of the chart and of the handler\<close>





















section \<open>Properties of the slide position\<close>






section \<open>Properties of the registry\<close>



lemma map_of_dict_del:
  "map_of (dict_del d k) k' = (if k' = k then None else map_of d k')"
  by (induction d) (auto simp: dict_del_def)

lemma distinct_dict_del:
  "distinct (map fst d) \<Longrightarrow> distinct (map fst (dict_del d k))"
  by (simp add: dict_del_def distinct_map_filter)

lemma length_dict_del:
  "distinct (map fst d) \<Longrightarrow> k \<in> fst ` set d \<Longrightarrow> Suc (length (dict_del d k)) = length d"
proof (induction d)
  case Nil
  then show ?case by simp
next
  case (Cons kv d)
  show ?case
  proof (cases "fst kv = k")
    case True
    with Cons.prems have "k \<notin> fst ` set d" by auto
    then have "filter (\<lambda>kv. fst kv \<noteq> k) d = d"
      by (auto simp: filter_id_conv)
    with True show ?thesis by (simp add: dict_del_def)
  next
    case False
    with Cons.prems have "distinct (map fst d)" "k \<in> fst ` set d" by auto
    with Cons.IH False show ?thesis by (simp add: dict_del_def)
  qed
qed

lemma sweep_loop_filter:
  "distinct (map fst files) \<Longrightarrow> distinct ks \<Longrightarrow> set ks \<subseteq> fst ` set files \<Longrightarrow>
   sweep_loop ks now files removed =
     (None,
      filter (\<lambda>kv. \<not> (fst kv \<in> set ks \<and> 3600 < age_of now (snd kv))) files,
      removed + (length files
        - length (filter (\<lambda>kv. \<not> (fst kv \<in> set ks \<and> 3600 < age_of now (snd kv))) files)))"
proof (induction ks arbitrary: files removed)
  case Nil
  then show ?case by simp
next
  case (Cons k ks)
  from Cons.prems obtain a where a: "(k, a) \<in> set files" by auto
  with Cons.prems(1) have look: "map_of files k = Some a" by simp
  have only: "v = a" if "(k, v) \<in> set files" for v
    using that a Cons.prems(1) by (meson eq_key_imp_eq_value)
  from Cons.prems(2) have kks: "k \<notin> set ks" "distinct ks" by simp_all
  show ?case
  proof (cases "3600 < age_of now a")
    case True
    let ?d = "dict_del files k"
    have d1: "distinct (map fst ?d)" using Cons.prems(1) by (rule distinct_dict_del)
    have d2: "set ks \<subseteq> fst ` set ?d"
      using Cons.prems(3) kks(1) by (auto simp: dict_del_def) force
    have same: "filter (\<lambda>kv. \<not> (fst kv \<in> set ks \<and> 3600 < age_of now (snd kv))) ?d
        = filter (\<lambda>kv. \<not> (fst kv \<in> set (k # ks) \<and> 3600 < age_of now (snd kv))) files"
      unfolding dict_del_def filter_filter
    proof (rule filter_cong[OF refl])
      fix kv assume "kv \<in> set files"
      then show "(fst kv \<noteq> k \<and> \<not> (fst kv \<in> set ks \<and> 3600 < age_of now (snd kv)))
          = (\<not> (fst kv \<in> set (k # ks) \<and> 3600 < age_of now (snd kv)))"
        using only[of "snd kv"] True by (cases kv) auto
    qed
    have len: "Suc (length ?d) = length files"
      using Cons.prems(1) a by (intro length_dict_del) force+
    have le: "length (filter (\<lambda>kv. \<not> (fst kv \<in> set ks \<and> 3600 < age_of now (snd kv))) ?d)
        \<le> length ?d" by (rule length_filter_le)
    from Cons.IH[OF d1 kks(2) d2, of "removed + 1"] look True same len le
    show ?thesis by (simp del: set_simps)
  next
    case False
    have same: "filter (\<lambda>kv. \<not> (fst kv \<in> set ks \<and> 3600 < age_of now (snd kv))) files
        = filter (\<lambda>kv. \<not> (fst kv \<in> set (k # ks) \<and> 3600 < age_of now (snd kv))) files"
    proof (rule filter_cong[OF refl])
      fix kv assume "kv \<in> set files"
      then show "(\<not> (fst kv \<in> set ks \<and> 3600 < age_of now (snd kv)))
          = (\<not> (fst kv \<in> set (k # ks) \<and> 3600 < age_of now (snd kv)))"
        using only[of "snd kv"] False by (cases kv) auto
    qed
    have sub: "set ks \<subseteq> fst ` set files" using Cons.prems(3) by simp
    from Cons.IH[OF Cons.prems(1) kks(2) sub, of removed] look False same
    show ?thesis by (simp del: set_simps)
  qed
qed

lemma cleanup_result:
  assumes "distinct (dict_keys files)"
  shows "cleanup now files =
     (Json 200
        [(''message'', JStr (''Cleanup complete. Removed ''
            @ str_nat (length files - length (filter (\<lambda>kv. \<not> 3600 < age_of now (snd kv)) files))
            @ '' old files.'')),
         (''remaining'', JNum (int (length (filter (\<lambda>kv. \<not> 3600 < age_of now (snd kv)) files))))],
      filter (\<lambda>kv. \<not> 3600 < age_of now (snd kv)) files)"
proof -
  have "filter (\<lambda>kv. \<not> (fst kv \<in> set (map fst files) \<and> 3600 < age_of now (snd kv))) files
      = filter (\<lambda>kv. \<not> 3600 < age_of now (snd kv)) files"
    by (rule filter_cong[OF refl]) auto
  with sweep_loop_filter[of files "map fst files" now 0] assms
  show ?thesis by (simp add: cleanup_def dict_keys_def)
qed

text \<open>
  C8. For every dictionary (its keys distinct, as a dictionary's are) and every time,
  \<^verbatim>\<open>cleanup\<close> keeps exactly the entries whose age is at most 3600 seconds, in their
  order: every entry left has age at most 3600, an entry is gone exactly when its age
  exceeds 3600, and a download of a removed identifier is then answered with 404. The
  response has status 200, the count in its message is the number of entries deleted,
  and \<^verbatim>\<open>remaining\<close> is the size of the dictionary after the sweep.
\<close>

theorem cleanup_sweeps_expired:
  assumes "distinct (dict_keys files)"
  shows "snd (cleanup now files) = filter (\<lambda>kv. age_of now (snd kv) \<le> 3600) files
   \<and> (\<forall>kv \<in> set (snd (cleanup now files)). kv \<in> set files \<and> age_of now (snd kv) \<le> 3600)
   \<and> (\<forall>kv \<in> set files. kv \<notin> set (snd (cleanup now files)) \<longleftrightarrow> 3600 < age_of now (snd kv))
   \<and> (\<forall>kv \<in> set files. 3600 < age_of now (snd kv) \<longrightarrow>
         fst (download_chart (fst kv) (snd (cleanup now files))) = file_not_found)
   \<and> fst (cleanup now files) =
       Json 200
         [(''message'', JStr (''Cleanup complete. Removed ''
             @ str_nat (length files - length (snd (cleanup now files))) @ '' old files.'')),
          (''remaining'', JNum (int (length (snd (cleanup now files)))))]
   \<and> length files - length (snd (cleanup now files))
       = length (filter (\<lambda>kv. 3600 < age_of now (snd kv)) files)"
proof -
  let ?kept = "filter (\<lambda>kv. \<not> 3600 < age_of now (snd kv)) files"
  from assms have keys: "distinct (map fst files)" by (simp add: dict_keys_def)
  note res = cleanup_result[OF assms, of now]
  have kept: "snd (cleanup now files) = ?kept" by (simp add: res)
  have le: "?kept = filter (\<lambda>kv. age_of now (snd kv) \<le> 3600) files"
    by (rule filter_cong[OF refl]) auto
  have gone: "fst (download_chart (fst kv) ?kept) = file_not_found"
    if "kv \<in> set files" "3600 < age_of now (snd kv)" for kv
  proof -
    have "fst kv \<notin> fst ` set ?kept"
    proof
      assume "fst kv \<in> fst ` set ?kept"
      then obtain kv' where kv': "kv' \<in> set files" "\<not> 3600 < age_of now (snd kv')" "fst kv' = fst kv"
        by auto
      with that(1) keys have "snd kv' = snd kv"
        by (metis eq_key_imp_eq_value prod.collapse)
      with kv'(2) that(2) show False by simp
    qed
    then have "map_of ?kept (fst kv) = None" by (simp add: map_of_eq_None_iff)
    then show ?thesis by (simp add: download_chart_def)
  qed
  have count: "length files - length ?kept = length (filter (\<lambda>kv. 3600 < age_of now (snd kv)) files)"
    using sum_length_filter_compl[of "\<lambda>kv. 3600 < age_of now (snd kv)" files] by simp
  have "\<forall>kv \<in> set ?kept. kv \<in> set files \<and> age_of now (snd kv) \<le> 3600" by auto
  moreover have "\<forall>kv \<in> set files. kv \<notin> set ?kept \<longleftrightarrow> 3600 < age_of now (snd kv)" by auto
  moreover have "\<forall>kv \<in> set files. 3600 < age_of now (snd kv) \<longrightarrow>
         fst (download_chart (fst kv) ?kept) = file_not_found"
    using gone by blast
  moreover have "fst (cleanup now files) =
       Json 200
         [(''message'', JStr (''Cleanup complete. Removed ''
             @ str_nat (length files - length ?kept) @ '' old files.'')),
          (''remaining'', JNum (int (length ?kept)))]"
    by (simp add: res)
  ultimately show ?thesis
    unfolding kept using le count by simp
qed

lemma example_ages:
  "age_of 3600000001 (example_artifact 0) = 3600000001 / 1000000"
  "age_of 3600000001 (example_artifact 1) = 3600"
  "age_of 3600000001 (example_artifact 3000000000) = 600000001 / 1000000"
  by (simp_all add: age_of_def total_seconds_def example_artifact_def)

theorem cleanup_sweeps_expired_witness:
  "distinct (dict_keys example_files)
   \<and> snd (cleanup 3600000001 example_files)
       = [(''edge'', example_artifact 1), (''new'', example_artifact 3000000000)]
   \<and> fst (cleanup 3600000001 example_files)
       = Json 200 [(''message'', JStr ''Cleanup complete. Removed 1 old files.''),
                   (''remaining'', JNum 2)]
   \<and> fst (download_chart ''old'' (snd (cleanup 3600000001 example_files))) = file_not_found"
proof -
  have d: "distinct (dict_keys example_files)"
    by (simp add: dict_keys_def example_files_def)
  note w = cleanup_sweeps_expired[OF d, of 3600000001]
  from w have "snd (cleanup 3600000001 example_files)
      = filter (\<lambda>kv. age_of 3600000001 (snd kv) \<le> 3600) example_files" by blast
  then have kept: "snd (cleanup 3600000001 example_files)
       = [(''edge'', example_artifact 1), (''new'', example_artifact 3000000000)]"
    by (simp add: example_files_def example_ages)
  from w have "fst (cleanup 3600000001 example_files) =
       Json 200
         [(''message'', JStr (''Cleanup complete. Removed ''
             @ str_nat (length example_files - length (snd (cleanup 3600000001 example_files)))
             @ '' old files.'')),
          (''remaining'', JNum (int (length (snd (cleanup 3600000001 example_files)))))]"
    by blast
  then have resp: "fst (cleanup 3600000001 example_files)
       = Json 200 [(''message'', JStr ''Cleanup complete. Removed 1 old files.''),
                   (''remaining'', JNum 2)]"
    unfolding kept by (simp add: example_files_def)
  have "(''old'', example_artifact 0) \<in> set example_files"
    "3600 < age_of 3600000001 (snd (''old'', example_artifact 0))"
    by (simp_all add: example_files_def example_ages)
  with w have "fst (download_chart (fst (''old'', example_artifact 0))
      (snd (cleanup 3600000001 example_files))) = file_not_found"
    by blast
  then have "fst (download_chart ''old'' (snd (cleanup 3600000001 example_files))) = file_not_found"
    by simp
  with d kept resp show ?thesis by blast
qed








end
